theory Spec2Isabelle
  imports Main
begin

section \<open>Data model\<close>

text \<open>
  A literal is a Python integer, a clause a list of literals, a formula (\<open>CNFtype\<close>) a
  list of clauses. Python sets of literals are HOL sets of integers. The values that
  numpy boxes as 64-bit integers are the literals of the formula; they are modelled as
  unbounded integers, that is, for literals of magnitude below \<open>2 ^ 63\<close>.
\<close>

type_synonym clause = "int list"
type_synonym CNFtype = "clause list"

text \<open>
  Iterating over a Python set visits every element once, in an order fixed by the
  interpreter's hash table and not by the program. The order is a parameter \<open>ord\<close> of
  the model; \<open>iteration_order ord\<close> says that it enumerates the elements of every finite set.
\<close>

definition iteration_order :: "(int set \<Rightarrow> int list) \<Rightarrow> bool" where
  "iteration_order ord = (\<forall>S. finite S \<longrightarrow> set (ord S) = S)"

text \<open>
  Modelled from the spec: \<open>flatten_list\<close> of the module \<open>utils\<close> is not among the
  sources. The spec calls it the flattening helper: it concatenates the clauses of a formula
  into one list of literals.
\<close>

definition flatten_list :: "'a list list \<Rightarrow> 'a list" where
  "flatten_list xss = concat xss"

section \<open>Formula analysis (class Solver)\<close>

definition determine_literals :: "CNFtype \<Rightarrow> int set" where
  "determine_literals cnf = set (flatten_list cnf)"

definition determine_pure_literals :: "CNFtype \<Rightarrow> int set" where
  "determine_pure_literals cnf =
     (let unique_literals = determine_literals cnf
      in {ul \<in> unique_literals. - ul \<notin> unique_literals})"

definition determine_unit_clauses :: "CNFtype \<Rightarrow> int set" where
  "determine_unit_clauses cnf =
     set (flatten_list (filter (\<lambda>clause. length clause = 1) cnf))"

definition remove_clauses_with_literal :: "CNFtype \<Rightarrow> int \<Rightarrow> CNFtype" where
  "remove_clauses_with_literal cnf literal =
     filter (\<lambda>clause. literal \<notin> set clause) cnf"

definition shorten_clauses_with_literal :: "CNFtype \<Rightarrow> int \<Rightarrow> CNFtype" where
  "shorten_clauses_with_literal cnf literal =
     map (\<lambda>clause. filter (\<lambda>c. c \<noteq> literal) clause) cnf"

definition remove_literal :: "CNFtype \<Rightarrow> int \<Rightarrow> CNFtype" where
  "remove_literal cnf literal =
     shorten_clauses_with_literal (remove_clauses_with_literal cnf literal) (- literal)"

text \<open>The \<open>for\<close> loop of \<open>simplify\<close>: \<open>remove_literal\<close> for each literal, in the order given.\<close>

definition remove_all :: "int list \<Rightarrow> CNFtype \<Rightarrow> CNFtype" where
  "remove_all literals cnf = fold (\<lambda>literal cnf'. remove_literal cnf' literal) literals cnf"

definition simplify :: "(int set \<Rightarrow> int list) \<Rightarrow> CNFtype \<Rightarrow> CNFtype \<times> int set" where
  "simplify ord cnf =
     (let unit_clauses = determine_unit_clauses cnf;
          pure_literals = determine_pure_literals cnf;
          remove_literals = unit_clauses \<union> pure_literals
      in (remove_all (ord remove_literals) cnf, remove_literals))"

section \<open>Backtracking search (class DPLL)\<close>

text \<open>
  The mutable fields of the solver object, and the number of draws made so far from
  numpy's global random generator.
\<close>

record solver =
  satisfied :: bool
  solution :: "int list"
  backtrack_count :: nat
  recursion_count :: nat
  draws :: nat

definition init :: solver where
  "init = \<lparr>satisfied = False, solution = [], backtrack_count = 0, recursion_count = 0,
           draws = 0\<rparr>"

text \<open>\<open>np.random.choice\<close> raises \<open>ValueError\<close> on an empty collection.\<close>

datatype error = ValueError

text \<open>
  \<open>backtrack\<close>, with the read-only field \<open>self.literals\<close> as the argument \<open>lits\<close>.
  The first argument bounds the depth of nested calls: \<open>None\<close> means that the bound
  was reached before the call returned. The random generator is the function \<open>rnd\<close>:
  its \<open>k\<close>-th draw picks the element at index \<open>rnd k mod n\<close> of the \<open>n\<close> candidates, so
  every candidate can be drawn. Printing (\<open>verbose\<close>) is left out.
\<close>

fun backtrack ::
  "nat \<Rightarrow> (int set \<Rightarrow> int list) \<Rightarrow> (nat \<Rightarrow> nat) \<Rightarrow> int set \<Rightarrow> CNFtype \<Rightarrow> int set \<Rightarrow> solver
     \<Rightarrow> (error + bool \<times> solver) option" where
  "backtrack 0 ord rnd lits cnf partial_assignment s = None"
| "backtrack (Suc fuel) ord rnd lits cnf partial_assignment s =
     (let s1 = s\<lparr>recursion_count := recursion_count s + 1\<rparr>;
          (cnf', removed_literals) = simplify ord cnf;
          partial_assignment' = partial_assignment \<union> removed_literals
      in if length cnf' = 0
         then Some (Inr (True, s1\<lparr>solution := ord partial_assignment'\<rparr>))
         else if 0 \<in> set (map length cnf')
         then Some (Inr (False, s1\<lparr>backtrack_count := backtrack_count s1 + 1\<rparr>))
         else
           (let candidates = ord (lits - partial_assignment')
            in if candidates = [] then Some (Inl ValueError)
               else
                 (let literal = candidates ! (rnd (draws s1) mod length candidates);
                      s2 = s1\<lparr>draws := draws s1 + 1\<rparr>
                  in case backtrack fuel ord rnd lits (remove_literal cnf' (- literal))
                            (partial_assignment' \<union> {- literal}) s2 of
                       None \<Rightarrow> None
                     | Some (Inl e) \<Rightarrow> Some (Inl e)
                     | Some (Inr (sat, s3)) \<Rightarrow>
                         if \<not> sat
                         then backtrack fuel ord rnd lits (remove_literal cnf' literal)
                                (partial_assignment' \<union> {literal}) s3
                         else Some (Inr (sat, s3)))))"

text \<open>\<open>DPLL.start\<close> on a solver constructed for \<open>cnf\<close>, and \<open>Solver.solve\<close>.\<close>

definition start ::
  "nat \<Rightarrow> (int set \<Rightarrow> int list) \<Rightarrow> (nat \<Rightarrow> nat) \<Rightarrow> CNFtype \<Rightarrow> (error + bool \<times> solver) option" where
  "start fuel ord rnd cnf = backtrack fuel ord rnd (determine_literals cnf) cnf {} init"

definition solve ::
  "nat \<Rightarrow> (int set \<Rightarrow> int list) \<Rightarrow> (nat \<Rightarrow> nat) \<Rightarrow> CNFtype \<Rightarrow> (error + solver) option" where
  "solve fuel ord rnd cnf =
     (case start fuel ord rnd cnf of
        None \<Rightarrow> None
      | Some (Inl e) \<Rightarrow> Some (Inl e)
      | Some (Inr (sat, s)) \<Rightarrow> Some (Inr (s\<lparr>satisfied := sat\<rparr>)))"

section \<open>Notions used to state the properties\<close>

text \<open>The literals forced by one pass of \<open>simplify\<close>: its second result.\<close>

definition forced :: "CNFtype \<Rightarrow> int set" where
  "forced cnf = determine_unit_clauses cnf \<union> determine_pure_literals cnf"

text \<open>
  \<open>remove_literal\<close> as the spec words it: drop each clause containing the literal, and
  remove the negated literal from each clause that is kept.
\<close>

primrec remove_literal_spec :: "CNFtype \<Rightarrow> int \<Rightarrow> CNFtype" where
  "remove_literal_spec [] l = []"
| "remove_literal_spec (clause # cnf) l =
     (if l \<in> set clause then remove_literal_spec cnf l
      else removeAll (- l) clause # remove_literal_spec cnf l)"

text \<open>A set of literals that holds no literal together with its negation.\<close>

definition consistent :: "int set \<Rightarrow> bool" where
  "consistent pa = (\<forall>l \<in> pa. - l \<notin> pa)"

text \<open>An assignment, as the set of its true literals, satisfies a formula: every clause
  contains one of them.\<close>

definition satisfies :: "int set \<Rightarrow> CNFtype \<Rightarrow> bool" where
  "satisfies A cnf = (\<forall>clause \<in> set cnf. \<exists>l \<in> set clause. l \<in> A)"

text \<open>An assignment over a universe of literals chooses exactly one polarity for each.\<close>

definition assignment_over :: "int set \<Rightarrow> int set \<Rightarrow> bool" where
  "assignment_over U A = (\<forall>l \<in> U. (l \<in> A) \<noteq> (- l \<in> A))"

text \<open>
  The invariant of the search: each clause of the original formula \<open>f\<close> holds a literal of
  the partial assignment, or a clause of the current formula is what is left of it.
\<close>

definition covered :: "CNFtype \<Rightarrow> CNFtype \<Rightarrow> int set \<Rightarrow> bool" where
  "covered f cnf pa =
     (\<forall>clause \<in> set f. (\<exists>l \<in> set clause. l \<in> pa) \<or> (\<exists>clause' \<in> set cnf. set clause' \<subseteq> set clause))"

text \<open>A random generator whose every draw picks the first candidate.\<close>

definition first_candidate :: "nat \<Rightarrow> nat" where
  "first_candidate k = 0"

text \<open>
  No literal of the partial assignment, and no negation of one, occurs in the formula:
  the variables assigned so far are gone from it.
\<close>

definition fresh :: "int set \<Rightarrow> CNFtype \<Rightarrow> bool" where
  "fresh pa cnf = (\<forall>l \<in> pa. l \<notin> determine_literals cnf \<and> - l \<notin> determine_literals cnf)"

text \<open>
  A random generator whose first draw picks the candidate at index 3 and every later draw
  the candidate at index 2.
\<close>

definition stale_draws :: "nat \<Rightarrow> nat" where
  "stale_draws k = (if k = 0 then 3 else 2)"

text \<open>
  \<open>backtrack\<close> once more, returning in addition the partial assignments that this
  invocation and the invocations nested in it were called with, in the order of the calls:
  the first is the argument of the invocation itself, the others are the arguments of the
  recursive calls.
\<close>

fun backtrack_calls ::
  "nat \<Rightarrow> (int set \<Rightarrow> int list) \<Rightarrow> (nat \<Rightarrow> nat) \<Rightarrow> int set \<Rightarrow> CNFtype \<Rightarrow> int set \<Rightarrow> solver
     \<Rightarrow> ((error + bool \<times> solver) \<times> int set list) option" where
  "backtrack_calls 0 ord rnd lits cnf partial_assignment s = None"
| "backtrack_calls (Suc fuel) ord rnd lits cnf partial_assignment s =
     (let s1 = s\<lparr>recursion_count := recursion_count s + 1\<rparr>;
          (cnf', removed_literals) = simplify ord cnf;
          partial_assignment' = partial_assignment \<union> removed_literals
      in if length cnf' = 0
         then Some (Inr (True, s1\<lparr>solution := ord partial_assignment'\<rparr>), [partial_assignment])
         else if 0 \<in> set (map length cnf')
         then Some (Inr (False, s1\<lparr>backtrack_count := backtrack_count s1 + 1\<rparr>),
                [partial_assignment])
         else
           (let candidates = ord (lits - partial_assignment')
            in if candidates = [] then Some (Inl ValueError, [partial_assignment])
               else
                 (let literal = candidates ! (rnd (draws s1) mod length candidates);
                      s2 = s1\<lparr>draws := draws s1 + 1\<rparr>
                  in case backtrack_calls fuel ord rnd lits (remove_literal cnf' (- literal))
                            (partial_assignment' \<union> {- literal}) s2 of
                       None \<Rightarrow> None
                     | Some (Inl e, calls1) \<Rightarrow> Some (Inl e, partial_assignment # calls1)
                     | Some (Inr (sat, s3), calls1) \<Rightarrow>
                         if \<not> sat
                         then (case backtrack_calls fuel ord rnd lits (remove_literal cnf' literal)
                                       (partial_assignment' \<union> {literal}) s3 of
                                 None \<Rightarrow> None
                               | Some (r, calls2) \<Rightarrow> Some (r, partial_assignment # calls1 @ calls2))
                         else Some (Inr (sat, s3), partial_assignment # calls1))))"

text \<open>
  A random generator whose draws pick the candidates at the indices 3, 2, 0, 0, ...
\<close>

definition revisit_draws :: "nat \<Rightarrow> nat" where
  "revisit_draws k = (if k = 0 then 3 else if k = 1 then 2 else 0)"

section \<open>Basic facts\<close>

lemma simplify_eq: "simplify ord cnf = (remove_all (ord (forced cnf)) cnf, forced cnf)"
  by (simp add: simplify_def forced_def Let_def)

lemma remove_literal_eq:
  "remove_literal cnf l = map (filter (\<lambda>c. c \<noteq> - l)) (filter (\<lambda>cl. l \<notin> set cl) cnf)"
  by (simp add: remove_literal_def remove_clauses_with_literal_def shorten_clauses_with_literal_def)

lemma remove_all_Nil [simp]: "remove_all [] cnf = cnf"
  by (simp add: remove_all_def)

lemma remove_all_Cons [simp]: "remove_all (l # ls) cnf = remove_all ls (remove_literal cnf l)"
  by (simp add: remove_all_def)

lemma backtrack_SucE:
  assumes "backtrack (Suc n) ord rnd lits cnf pa s = Some r"
  obtains
    (Sat) "remove_all (ord (forced cnf)) cnf = []"
      "r = Inr (True, s\<lparr>recursion_count := recursion_count s + 1, solution := ord (pa \<union> forced cnf)\<rparr>)"
  | (Conflict) "remove_all (ord (forced cnf)) cnf \<noteq> []" "[] \<in> set (remove_all (ord (forced cnf)) cnf)"
      "\<exists>s'. r = Inr (False, s')"
  | (Raise) "remove_all (ord (forced cnf)) cnf \<noteq> []" "[] \<notin> set (remove_all (ord (forced cnf)) cnf)"
      "ord (lits - (pa \<union> forced cnf)) = []" "r = Inl ValueError"
  | (NegErr) literal s2 e where "remove_all (ord (forced cnf)) cnf \<noteq> []"
      "[] \<notin> set (remove_all (ord (forced cnf)) cnf)"
      "literal \<in> set (ord (lits - (pa \<union> forced cnf)))"
      "backtrack n ord rnd lits (remove_literal (remove_all (ord (forced cnf)) cnf) (- literal))
         (pa \<union> forced cnf \<union> {- literal}) s2 = Some (Inl e)" "r = Inl e"
  | (NegTrue) literal s2 s3 where "remove_all (ord (forced cnf)) cnf \<noteq> []"
      "[] \<notin> set (remove_all (ord (forced cnf)) cnf)"
      "literal \<in> set (ord (lits - (pa \<union> forced cnf)))"
      "backtrack n ord rnd lits (remove_literal (remove_all (ord (forced cnf)) cnf) (- literal))
         (pa \<union> forced cnf \<union> {- literal}) s2 = Some (Inr (True, s3))" "r = Inr (True, s3)"
  | (Pos) literal s2 s3 where "remove_all (ord (forced cnf)) cnf \<noteq> []"
      "[] \<notin> set (remove_all (ord (forced cnf)) cnf)"
      "literal \<in> set (ord (lits - (pa \<union> forced cnf)))"
      "backtrack n ord rnd lits (remove_literal (remove_all (ord (forced cnf)) cnf) (- literal))
         (pa \<union> forced cnf \<union> {- literal}) s2 = Some (Inr (False, s3))"
      "backtrack n ord rnd lits (remove_literal (remove_all (ord (forced cnf)) cnf) literal)
         (pa \<union> forced cnf \<union> {literal}) s3 = Some r"
proof -
  let ?cnf = "remove_all (ord (forced cnf)) cnf"
  let ?pa = "pa \<union> forced cnf"
  let ?cands = "ord (lits - ?pa)"
  let ?lit = "?cands ! (rnd (draws s) mod length ?cands)"
  let ?s2 = "s\<lparr>recursion_count := recursion_count s + 1, draws := draws s + 1\<rparr>"
  show thesis
  proof (cases "?cnf = []")
    case True
    with assms have "r = Inr (True, s\<lparr>recursion_count := recursion_count s + 1, solution := ord ?pa\<rparr>)"
      by (simp add: simplify_eq Let_def)
    with True show thesis by (rule Sat)
  next
    case ne: False
    show thesis
    proof (cases "[] \<in> set ?cnf")
      case True
      with ne assms have "\<exists>s'. r = Inr (False, s')"
        by (auto simp add: simplify_eq Let_def)
      with ne True show thesis by (rule Conflict)
    next
      case nc: False
      then have nc': "0 \<notin> length ` set ?cnf" by auto
      show thesis
      proof (cases "?cands = []")
        case True
        with ne nc' assms have "r = Inl ValueError"
          by (simp add: simplify_eq Let_def)
        with ne nc True show thesis by (rule Raise)
      next
        case cne: False
        then have mem: "?lit \<in> set ?cands" by simp
        note pre = ne nc' cne assms
        show thesis
        proof (cases "backtrack n ord rnd lits (remove_literal ?cnf (- ?lit)) (?pa \<union> {- ?lit}) ?s2")
          case None
          with pre show thesis by (simp add: simplify_eq Let_def)
        next
          case (Some r1)
          show thesis
          proof (cases r1)
            case (Inl e)
            with Some have first: "backtrack n ord rnd lits (remove_literal ?cnf (- ?lit))
                (?pa \<union> {- ?lit}) ?s2 = Some (Inl e)" by simp
            from first pre have "r = Inl e" by (simp add: simplify_eq Let_def)
            then show thesis by (rule NegErr [OF ne nc mem first])
          next
            case (Inr p)
            obtain b s3 where p: "p = (b, s3)" by (cases p)
            show thesis
            proof (cases b)
              case True
              with Some Inr p have first: "backtrack n ord rnd lits (remove_literal ?cnf (- ?lit))
                  (?pa \<union> {- ?lit}) ?s2 = Some (Inr (True, s3))" by simp
              from first pre have "r = Inr (True, s3)" by (simp add: simplify_eq Let_def)
              then show thesis by (rule NegTrue [OF ne nc mem first])
            next
              case False
              with Some Inr p have first: "backtrack n ord rnd lits (remove_literal ?cnf (- ?lit))
                  (?pa \<union> {- ?lit}) ?s2 = Some (Inr (False, s3))" by simp
              from first pre have
                "backtrack n ord rnd lits (remove_literal ?cnf ?lit) (?pa \<union> {?lit}) s3 = Some r"
                by (simp add: simplify_eq Let_def)
              then show thesis by (rule Pos [OF ne nc mem first])
            qed
          qed
        qed
      qed
    qed
  qed
qed

lemma remove_literal_spec_eq: "remove_literal cnf l = remove_literal_spec cnf l"
  by (induction cnf) (simp_all add: remove_literal_eq removeAll_filter_not_eq eq_commute)

lemma iteration_orderD: "iteration_order ord \<Longrightarrow> finite S \<Longrightarrow> set (ord S) = S"
  by (simp add: iteration_order_def)

lemma iteration_order_empty: "iteration_order ord \<Longrightarrow> ord {} = []"
  using iteration_orderD [of ord "{}"] by simp

lemma iteration_order_sorted: "iteration_order sorted_list_of_set"
  by (simp add: iteration_order_def)

lemma remove_all_closed:
  "\<forall>l \<in> set ls. - l \<notin> set ls \<Longrightarrow>
   remove_all ls cnf =
     map (filter (\<lambda>c. - c \<notin> set ls)) (filter (\<lambda>clause. set clause \<inter> set ls = {}) cnf)"
proof (induction ls arbitrary: cnf)
  case Nil
  then show ?case by simp
next
  case (Cons l ls)
  then have nl: "- l \<notin> set ls" and l0: "- l \<noteq> l" and rest: "\<forall>k \<in> set ls. - k \<notin> set ls"
    by auto
  have a: "\<And>clause. l \<notin> set clause \<Longrightarrow>
      (set (filter (\<lambda>c. c \<noteq> - l) clause) \<inter> set ls = {}) = (set clause \<inter> set (l # ls) = {})"
    using nl by auto
  have b: "\<And>c. (c \<noteq> - l \<and> - c \<notin> set ls) = (- c \<notin> set (l # ls))"
    by auto
  show ?case
    apply (simp only: remove_all_Cons Cons.IH [OF rest] remove_literal_eq filter_map filter_filter
        map_map o_def b)
    apply (rule arg_cong [where f = "map _"])
    apply (rule filter_cong [OF refl])
    using a apply auto
    done
qed

lemma units_iff: "l \<in> determine_unit_clauses cnf \<longleftrightarrow> [l] \<in> set cnf"
proof
  assume "l \<in> determine_unit_clauses cnf"
  then obtain clause where c: "clause \<in> set cnf" "length clause = 1" "l \<in> set clause"
    by (auto simp add: determine_unit_clauses_def flatten_list_def)
  then have "clause = [l]" by (auto simp add: length_Suc_conv)
  with c show "[l] \<in> set cnf" by simp
next
  assume "[l] \<in> set cnf"
  then show "l \<in> determine_unit_clauses cnf"
    by (force simp add: determine_unit_clauses_def flatten_list_def)
qed

lemma literals_iff: "l \<in> determine_literals cnf \<longleftrightarrow> (\<exists>clause \<in> set cnf. l \<in> set clause)"
  by (auto simp add: determine_literals_def flatten_list_def)

lemma pures_iff:
  "l \<in> determine_pure_literals cnf \<longleftrightarrow> l \<in> determine_literals cnf \<and> - l \<notin> determine_literals cnf"
  by (simp add: determine_pure_literals_def Let_def)

lemma forced_iff:
  "l \<in> forced cnf \<longleftrightarrow> [l] \<in> set cnf \<or> (l \<in> determine_literals cnf \<and> - l \<notin> determine_literals cnf)"
  by (simp add: forced_def units_iff pures_iff)

lemma units_ex: "determine_unit_clauses [[1, 2], [-1, -2]] = {}"
  by (simp add: determine_unit_clauses_def flatten_list_def)

lemma pures_ex: "determine_pure_literals [[1, 2], [-1, -2]] = {}"
  by (auto simp add: determine_pure_literals_def determine_literals_def flatten_list_def)

lemma forced_ex1: "forced [[1, 2], [-1]] = {-1, 2}"
  by code_simp

lemma forced_ex2: "forced [[1], [-1], [1, 2], [-2]] = {1, -1, -2}"
  by code_simp

lemma finite_literals [simp]: "finite (determine_literals cnf)"
  by (simp add: determine_literals_def)

lemma forced_subset: "forced cnf \<subseteq> determine_literals cnf"
  by (force simp add: forced_iff literals_iff)

lemma finite_forced [simp]: "finite (forced cnf)"
  by (rule finite_subset [OF forced_subset finite_literals])

lemma literals_remove_literal:
  "determine_literals (remove_literal cnf l) \<subseteq> determine_literals cnf - {l, - l}"
  by (auto simp add: literals_iff remove_literal_eq)

lemma literals_remove_all:
  "determine_literals (remove_all ls cnf) \<subseteq> determine_literals cnf - (set ls \<union> uminus ` set ls)"
proof (induction ls arbitrary: cnf)
  case Nil
  show ?case by simp
next
  case (Cons l ls)
  from Cons.IH [of "remove_literal cnf l"] literals_remove_literal [of cnf l]
  show ?case by (simp only: remove_all_Cons) auto
qed

lemma empty_clause_remove_literal: "[] \<in> set cnf \<Longrightarrow> [] \<in> set (remove_literal cnf l)"
  by (force simp add: remove_literal_eq)

lemma empty_clause_remove_all: "[] \<in> set cnf \<Longrightarrow> [] \<in> set (remove_all ls cnf)"
  by (induction ls arbitrary: cnf) (simp_all add: empty_clause_remove_literal)

lemma remove_literal_absent:
  "l \<notin> determine_literals cnf \<Longrightarrow> - l \<notin> determine_literals cnf \<Longrightarrow> remove_literal cnf l = cnf"
proof -
  assume a: "l \<notin> determine_literals cnf" and b: "- l \<notin> determine_literals cnf"
  have "filter (\<lambda>clause. l \<notin> set clause) cnf = cnf"
    using a by (simp add: literals_iff)
  moreover have "map (filter (\<lambda>c. c \<noteq> - l)) cnf = cnf"
    using b by (intro map_idI filter_True) (auto simp add: literals_iff)
  ultimately show ?thesis by (simp add: remove_literal_eq)
qed

lemma simplified_literals:
  assumes "iteration_order ord"
  shows "determine_literals (remove_all (ord (forced cnf)) cnf)
    \<subseteq> determine_literals cnf - (forced cnf \<union> uminus ` forced cnf)"
  using literals_remove_all [of "ord (forced cnf)" cnf] iteration_orderD [OF assms finite_forced, of cnf]
  by simp

lemma nonterminal_has_literal:
  "cnf \<noteq> [] \<Longrightarrow> [] \<notin> set cnf \<Longrightarrow> \<exists>l. l \<in> determine_literals cnf"
proof -
  assume ne: "cnf \<noteq> []" and nc: "[] \<notin> set cnf"
  from ne obtain clause where c: "clause \<in> set cnf" by (cases cnf) auto
  with nc have "clause \<noteq> []" by auto
  then obtain l where "l \<in> set clause" by (cases clause) auto
  with c show ?thesis by (auto simp add: literals_iff)
qed

lemma backtrack_no_error:
  assumes ord: "iteration_order ord" and fin: "finite lits"
  shows "determine_literals cnf \<subseteq> lits \<Longrightarrow> pa \<inter> determine_literals cnf = {} \<Longrightarrow>
    backtrack n ord rnd lits cnf pa s \<noteq> Some (Inl e)"
proof (induction n arbitrary: cnf pa s)
  case 0
  show ?case by simp
next
  case (Suc n)
  let ?cnf = "remove_all (ord (forced cnf)) cnf"
  let ?pa = "pa \<union> forced cnf"
  have sub: "determine_literals ?cnf \<subseteq> lits"
    using simplified_literals [OF ord, of cnf] Suc.prems(1) by blast
  have dis: "?pa \<inter> determine_literals ?cnf = {}"
    using simplified_literals [OF ord, of cnf] Suc.prems(2) by blast
  have child: "\<And>x s'. backtrack n ord rnd lits (remove_literal ?cnf x) (?pa \<union> {x}) s' \<noteq> Some (Inl e)"
  proof -
    fix x s'
    have "determine_literals (remove_literal ?cnf x) \<subseteq> lits"
      using literals_remove_literal [of ?cnf x] sub by blast
    moreover have "(?pa \<union> {x}) \<inter> determine_literals (remove_literal ?cnf x) = {}"
      using literals_remove_literal [of ?cnf x] dis by blast
    ultimately show "backtrack n ord rnd lits (remove_literal ?cnf x) (?pa \<union> {x}) s' \<noteq> Some (Inl e)"
      by (rule Suc.IH)
  qed
  show ?case
  proof
    assume "backtrack (Suc n) ord rnd lits cnf pa s = Some (Inl e)"
    then show False
    proof (cases rule: backtrack_SucE)
      case Sat
      then show False by simp
    next
      case Conflict
      then show False by auto
    next
      case Raise
      from nonterminal_has_literal [OF Raise(1,2)] obtain l where l: "l \<in> determine_literals ?cnf" ..
      with sub dis have "l \<in> lits - ?pa" by blast
      moreover have "set (ord (lits - ?pa)) = lits - ?pa"
        using fin by (intro iteration_orderD [OF ord]) simp
      ultimately show False using Raise(3) by auto
    next
      case (NegErr literal s2 e')
      with child [of "- literal" s2] show False by simp
    next
      case (NegTrue literal s2 s3)
      then show False by simp
    next
      case (Pos literal s2 s3)
      with child [of literal s3] show False by simp
    qed
  qed
qed

lemma covered_start: "covered f f {}"
  by (auto simp add: covered_def)

lemma covered_remove_literal:
  assumes "covered f cnf pa"
  shows "covered f (remove_literal cnf l) (pa \<union> {l})"
  unfolding covered_def
proof
  fix clause assume "clause \<in> set f"
  with assms have "(\<exists>k \<in> set clause. k \<in> pa) \<or> (\<exists>clause' \<in> set cnf. set clause' \<subseteq> set clause)"
    by (simp add: covered_def)
  then consider "\<exists>k \<in> set clause. k \<in> pa"
    | clause' where "clause' \<in> set cnf" "set clause' \<subseteq> set clause"
    by blast
  then show "(\<exists>k \<in> set clause. k \<in> pa \<union> {l}) \<or>
      (\<exists>clause' \<in> set (remove_literal cnf l). set clause' \<subseteq> set clause)"
  proof cases
    case 1
    then show ?thesis by auto
  next
    case 2
    show ?thesis
    proof (cases "l \<in> set clause'")
      case True
      with 2 show ?thesis by auto
    next
      case False
      with 2 have "filter (\<lambda>c. c \<noteq> - l) clause' \<in> set (remove_literal cnf l)"
        by (simp add: remove_literal_eq)
      moreover have "set (filter (\<lambda>c. c \<noteq> - l) clause') \<subseteq> set clause"
        using 2 by auto
      ultimately show ?thesis by blast
    qed
  qed
qed

lemma covered_remove_all: "covered f cnf pa \<Longrightarrow> covered f (remove_all ls cnf) (pa \<union> set ls)"
proof (induction ls arbitrary: cnf pa)
  case Nil
  then show ?case by simp
next
  case (Cons l ls)
  from Cons.IH [OF covered_remove_literal [OF Cons.prems, of l]]
  show ?case by (simp add: Un_commute insert_commute Un_left_commute)
qed

lemma covered_empty: "covered f [] pa \<Longrightarrow> \<forall>clause \<in> set f. \<exists>l \<in> set clause. l \<in> pa"
  by (simp add: covered_def)

lemma backtrack_sound:
  assumes ord: "iteration_order ord"
  shows "backtrack n ord rnd lits cnf pa s = Some (Inr (True, s')) \<Longrightarrow> finite pa \<Longrightarrow>
    covered f cnf pa \<Longrightarrow> \<forall>clause \<in> set f. \<exists>l \<in> set clause. l \<in> set (solution s')"
proof (induction n arbitrary: cnf pa s)
  case 0
  then show ?case by simp
next
  case (Suc n)
  let ?cnf = "remove_all (ord (forced cnf)) cnf"
  let ?pa = "pa \<union> forced cnf"
  have fin: "finite ?pa" using Suc.prems(2) by simp
  have cov: "covered f ?cnf ?pa"
    using covered_remove_all [OF Suc.prems(3), of "ord (forced cnf)"]
      iteration_orderD [OF ord finite_forced, of cnf] by simp
  have child: "\<And>x s2. backtrack n ord rnd lits (remove_literal ?cnf x) (?pa \<union> {x}) s2
      = Some (Inr (True, s')) \<Longrightarrow> \<forall>clause \<in> set f. \<exists>l \<in> set clause. l \<in> set (solution s')"
  proof -
    fix x s2
    assume run: "backtrack n ord rnd lits (remove_literal ?cnf x) (?pa \<union> {x}) s2 = Some (Inr (True, s'))"
    have "finite (?pa \<union> {x})" using fin by simp
    then show "\<forall>clause \<in> set f. \<exists>l \<in> set clause. l \<in> set (solution s')"
      by (rule Suc.IH [OF run _ covered_remove_literal [OF cov]])
  qed
  from Suc.prems(1) show ?case
  proof (cases rule: backtrack_SucE)
    case Sat
    with cov have "\<forall>clause \<in> set f. \<exists>l \<in> set clause. l \<in> ?pa"
      by (simp add: covered_def)
    moreover have "set (solution s') = ?pa"
      using Sat(2) iteration_orderD [OF ord fin] by simp
    ultimately show ?thesis by simp
  next
    case Conflict
    then show ?thesis by auto
  next
    case Raise
    then show ?thesis by simp
  next
    case (NegErr literal s2 e)
    then show ?thesis by simp
  next
    case (NegTrue literal s2 s3)
    then show ?thesis using child [of "- literal" s2] by simp
  next
    case (Pos literal s2 s3)
    then show ?thesis using child [of literal s3] by simp
  qed
qed

lemma satisfies_remove_literal:
  "satisfies A cnf \<Longrightarrow> - l \<notin> A \<Longrightarrow> satisfies A (remove_literal cnf l)"
  by (fastforce simp add: satisfies_def remove_literal_eq)

lemma satisfies_remove_pure:
  "satisfies A cnf \<Longrightarrow> - l \<notin> determine_literals cnf \<Longrightarrow> satisfies A (remove_literal cnf l)"
  by (fastforce simp add: satisfies_def remove_literal_eq literals_iff)

lemma satisfies_remove_all:
  "satisfies A cnf \<Longrightarrow> \<forall>l \<in> set ls. - l \<notin> A \<or> - l \<notin> determine_literals cnf \<Longrightarrow>
   satisfies A (remove_all ls cnf)"
proof (induction ls arbitrary: cnf)
  case Nil
  then show ?case by simp
next
  case (Cons l ls)
  have "satisfies A (remove_literal cnf l)"
    using Cons.prems satisfies_remove_literal satisfies_remove_pure by auto
  moreover have "\<forall>k \<in> set ls. - k \<notin> A \<or> - k \<notin> determine_literals (remove_literal cnf l)"
    using Cons.prems(2) literals_remove_literal [of cnf l] by auto
  ultimately show ?case using Cons.IH by simp
qed

lemma satisfies_simplified:
  assumes ord: "iteration_order ord" and sub: "determine_literals cnf \<subseteq> lits"
    and asg: "assignment_over lits A" and sat: "satisfies A cnf"
  shows "satisfies A (remove_all (ord (forced cnf)) cnf)"
proof (rule satisfies_remove_all [OF sat], rule ballI)
  fix l assume "l \<in> set (ord (forced cnf))"
  then have "l \<in> forced cnf" using iteration_orderD [OF ord finite_forced, of cnf] by simp
  then consider "[l] \<in> set cnf" | "- l \<notin> determine_literals cnf"
    by (auto simp add: forced_iff)
  then show "- l \<notin> A \<or> - l \<notin> determine_literals cnf"
  proof cases
    case 1
    with sat have "l \<in> A" by (auto simp add: satisfies_def)
    moreover from 1 have "l \<in> determine_literals cnf" by (force simp add: literals_iff)
    with sub have "l \<in> lits" by blast
    ultimately show ?thesis using asg by (auto simp add: assignment_over_def)
  next
    case 2
    then show ?thesis by simp
  qed
qed

lemma backtrack_complete:
  assumes ord: "iteration_order ord" and fin: "finite lits" and asg: "assignment_over lits A"
  shows "backtrack n ord rnd lits cnf pa s = Some (Inr (False, s')) \<Longrightarrow>
    determine_literals cnf \<subseteq> lits \<Longrightarrow> \<not> satisfies A cnf"
proof (induction n arbitrary: cnf pa s s')
  case 0
  then show ?case by simp
next
  case (Suc n)
  let ?cnf = "remove_all (ord (forced cnf)) cnf"
  let ?pa = "pa \<union> forced cnf"
  have sub: "determine_literals ?cnf \<subseteq> lits"
    using simplified_literals [OF ord, of cnf] Suc.prems(2) by blast
  have child: "\<And>x s2 s3. backtrack n ord rnd lits (remove_literal ?cnf x) (?pa \<union> {x}) s2
      = Some (Inr (False, s3)) \<Longrightarrow> \<not> satisfies A (remove_literal ?cnf x)"
  proof -
    fix x s2 s3
    assume run: "backtrack n ord rnd lits (remove_literal ?cnf x) (?pa \<union> {x}) s2 = Some (Inr (False, s3))"
    have "determine_literals (remove_literal ?cnf x) \<subseteq> lits"
      using literals_remove_literal [of ?cnf x] sub by blast
    then show "\<not> satisfies A (remove_literal ?cnf x)"
      by (rule Suc.IH [OF run])
  qed
  show ?case
  proof
    assume "satisfies A cnf"
    then have sat: "satisfies A ?cnf"
      by (rule satisfies_simplified [OF ord Suc.prems(2) asg])
    from Suc.prems(1) show False
    proof (cases rule: backtrack_SucE)
      case Sat
      then show False by simp
    next
      case Conflict
      with sat show False by (auto simp add: satisfies_def)
    next
      case Raise
      then show False by simp
    next
      case (NegErr literal s2 e)
      then show False by simp
    next
      case (NegTrue literal s2 s3)
      then show False by simp
    next
      case (Pos literal s2 s3)
      have "set (ord (lits - ?pa)) = lits - ?pa"
        using fin by (intro iteration_orderD [OF ord]) simp
      with Pos(3) have "literal \<in> lits" by simp
      with asg have "- literal \<notin> A \<or> - (- literal) \<notin> A"
        by (auto simp add: assignment_over_def)
      then have "satisfies A (remove_literal ?cnf literal) \<or> satisfies A (remove_literal ?cnf (- literal))"
        using sat satisfies_remove_literal by blast
      with child [OF Pos(4)] child [OF Pos(5)] show False by simp
    qed
  qed
qed

lemma solve_SomeD:
  assumes "solve n ord rnd f = Some (Inr s)"
  obtains s' where "backtrack n ord rnd (determine_literals f) f {} init = Some (Inr (satisfied s, s'))"
    and "solution s = solution s'"
proof -
  from assms obtain b s' where run: "backtrack n ord rnd (determine_literals f) f {} init = Some (Inr (b, s'))"
    and s: "s = s'\<lparr>satisfied := b\<rparr>"
    by (auto simp add: solve_def start_def split: option.splits sum.splits prod.splits)
  from s have "satisfied s = b" "solution s = solution s'" by simp_all
  with run that show thesis by simp
qed

lemma eval_unsat: "solve 2 sorted_list_of_set first_candidate [[1, 2], [-1, 2], [1, -2], [-1, -2]] =
  Some (Inr \<lparr>satisfied = False, solution = [], backtrack_count = 2, recursion_count = 3, draws = 1\<rparr>)"
  by code_simp

lemma eval_branch: "solve 2 sorted_list_of_set first_candidate [[1, -1]] =
  Some (Inr \<lparr>satisfied = True, solution = [1], backtrack_count = 0, recursion_count = 2, draws = 1\<rparr>)"
  by code_simp

lemma eval_cands: "sorted_list_of_set (determine_literals [[1, -1], [2, -2]] - {-1}) = [-2, 1, 2]"
  by code_simp

lemma satisfies_back:
  assumes "satisfies A (remove_literal cnf l)"
  shows "satisfies (insert l (A - {- l})) cnf"
  unfolding satisfies_def
proof
  fix clause assume c: "clause \<in> set cnf"
  show "\<exists>k \<in> set clause. k \<in> insert l (A - {- l})"
  proof (cases "l \<in> set clause")
    case True
    then show ?thesis by blast
  next
    case False
    with c have "filter (\<lambda>c. c \<noteq> - l) clause \<in> set (remove_literal cnf l)"
      by (simp add: remove_literal_eq)
    with assms obtain k where "k \<in> set (filter (\<lambda>c. c \<noteq> - l) clause)" "k \<in> A"
      unfolding satisfies_def by blast
    then show ?thesis by auto
  qed
qed

lemma assignment_over_back:
  assumes "assignment_over U A" and "l \<noteq> 0"
  shows "assignment_over U (insert l (A - {- l}))"
  unfolding assignment_over_def
proof
  fix k assume "k \<in> U"
  with assms(1) have k: "(k \<in> A) \<noteq> (- k \<in> A)" by (simp add: assignment_over_def)
  from assms(2) have "- l \<noteq> l" by simp
  show "(k \<in> insert l (A - {- l})) \<noteq> (- k \<in> insert l (A - {- l}))"
  proof (cases "k = l \<or> k = - l")
    case True
    with \<open>- l \<noteq> l\<close> show ?thesis by auto
  next
    case False
    then have "k \<noteq> l" "k \<noteq> - l" "- k \<noteq> l" "- k \<noteq> - l" by auto
    with k show ?thesis by simp
  qed
qed

lemma satisfiable_remove_literal_back:
  "l \<noteq> 0 \<Longrightarrow> \<exists>A. assignment_over U A \<and> satisfies A (remove_literal cnf l) \<Longrightarrow>
   \<exists>A. assignment_over U A \<and> satisfies A cnf"
  using satisfies_back assignment_over_back by blast

lemma satisfiable_remove_all_back:
  "0 \<notin> set ls \<Longrightarrow> \<exists>A. assignment_over U A \<and> satisfies A (remove_all ls cnf) \<Longrightarrow>
   \<exists>A. assignment_over U A \<and> satisfies A cnf"
proof (induction ls arbitrary: cnf)
  case Nil
  then show ?case by simp
next
  case (Cons l ls)
  from Cons.prems(1) have l: "l \<noteq> 0" and ls: "0 \<notin> set ls" by auto
  from Cons.prems(2) have "\<exists>A. assignment_over U A \<and> satisfies A (remove_all ls (remove_literal cnf l))"
    by simp
  then have "\<exists>A. assignment_over U A \<and> satisfies A (remove_literal cnf l)"
    by (rule Cons.IH [OF ls])
  then show ?case by (rule satisfiable_remove_literal_back [OF l])
qed

lemma assignment_over_positive:
  assumes "0 \<notin> U"
  shows "assignment_over U {l. 0 < l}"
  unfolding assignment_over_def
proof
  fix l assume "l \<in> U"
  with assms have "l \<noteq> 0" by blast
  then show "(l \<in> {l. 0 < l}) \<noteq> (- l \<in> {l. 0 < l})" by auto
qed

lemma backtrack_true_satisfiable:
  assumes ord: "iteration_order ord" and fin: "finite lits" and zero: "0 \<notin> lits"
  shows "backtrack n ord rnd lits cnf pa s = Some (Inr (True, s')) \<Longrightarrow>
    determine_literals cnf \<subseteq> lits \<Longrightarrow> \<exists>A. assignment_over lits A \<and> satisfies A cnf"
proof (induction n arbitrary: cnf pa s)
  case 0
  then show ?case by simp
next
  case (Suc n)
  let ?cnf = "remove_all (ord (forced cnf)) cnf"
  let ?pa = "pa \<union> forced cnf"
  have sub: "determine_literals ?cnf \<subseteq> lits"
    using simplified_literals [OF ord, of cnf] Suc.prems(2) by blast
  have "set (ord (forced cnf)) \<subseteq> lits"
    using iteration_orderD [OF ord finite_forced, of cnf] forced_subset [of cnf] Suc.prems(2) by auto
  with zero have nz: "0 \<notin> set (ord (forced cnf))" by blast
  have up: "\<exists>A. assignment_over lits A \<and> satisfies A ?cnf \<Longrightarrow> ?case"
    by (rule satisfiable_remove_all_back [OF nz])
  have cands: "set (ord (lits - ?pa)) = lits - ?pa"
    using fin by (intro iteration_orderD [OF ord]) simp
  have child: "\<And>x s2. x \<noteq> 0 \<Longrightarrow> backtrack n ord rnd lits (remove_literal ?cnf x) (?pa \<union> {x}) s2
      = Some (Inr (True, s')) \<Longrightarrow> \<exists>A. assignment_over lits A \<and> satisfies A ?cnf"
  proof -
    fix x s2
    assume x: "x \<noteq> 0"
      and run: "backtrack n ord rnd lits (remove_literal ?cnf x) (?pa \<union> {x}) s2 = Some (Inr (True, s'))"
    have "determine_literals (remove_literal ?cnf x) \<subseteq> lits"
      using literals_remove_literal [of ?cnf x] sub by blast
    from Suc.IH [OF run this] show "\<exists>A. assignment_over lits A \<and> satisfies A ?cnf"
      by (rule satisfiable_remove_literal_back [OF x])
  qed
  from Suc.prems(1) show ?case
  proof (cases rule: backtrack_SucE)
    case Sat
    have "assignment_over lits {l. 0 < l} \<and> satisfies {l. 0 < l} ?cnf"
      using Sat(1) zero by (simp add: assignment_over_positive satisfies_def)
    then have "\<exists>A. assignment_over lits A \<and> satisfies A ?cnf" by blast
    then show ?thesis by (rule up)
  next
    case Conflict
    then show ?thesis by auto
  next
    case Raise
    then show ?thesis by simp
  next
    case (NegErr literal s2 e)
    then show ?thesis by simp
  next
    case (NegTrue literal s2 s3)
    from NegTrue(3) cands zero have "- literal \<noteq> 0" by auto
    from child [OF this] NegTrue(4,5) have "\<exists>A. assignment_over lits A \<and> satisfies A ?cnf" by simp
    then show ?thesis by (rule up)
  next
    case (Pos literal s2 s3)
    from Pos(3) cands zero have "literal \<noteq> 0" by auto
    from child [OF this] Pos(5) have "\<exists>A. assignment_over lits A \<and> satisfies A ?cnf" by simp
    then show ?thesis by (rule up)
  qed
qed

lemma remove_literal_mem:
  "clause \<in> set cnf \<Longrightarrow> l \<notin> set clause \<Longrightarrow>
   filter (\<lambda>c. c \<noteq> - l) clause \<in> set (remove_literal cnf l)"
  by (simp add: remove_literal_eq)

lemma complementary_units:
  "[l] \<in> set cnf \<Longrightarrow> [- l] \<in> set cnf \<Longrightarrow> l \<noteq> 0 \<Longrightarrow> l \<in> set ls \<or> - l \<in> set ls \<Longrightarrow>
   [] \<in> set (remove_all ls cnf)"
proof (induction ls arbitrary: cnf)
  case Nil
  then show ?case by simp
next
  case (Cons k ls)
  from Cons.prems(3) have ne: "- l \<noteq> l" by simp
  consider "k = l" | "k = - l" | "k \<noteq> l" "k \<noteq> - l" by blast
  then show ?case
  proof cases
    case 1
    from remove_literal_mem [OF Cons.prems(2), of l] ne
    have "[] \<in> set (remove_literal cnf l)" by simp
    with 1 show ?thesis by (simp add: empty_clause_remove_all)
  next
    case 2
    from remove_literal_mem [OF Cons.prems(1), of "- l"] ne
    have "[] \<in> set (remove_literal cnf (- l))" by simp
    with 2 show ?thesis by (simp add: empty_clause_remove_all)
  next
    case 3
    from 3 have n1: "l \<noteq> - k" and n2: "- l \<noteq> - k" by auto
    from remove_literal_mem [OF Cons.prems(1), of k] 3 n1
    have a: "[l] \<in> set (remove_literal cnf k)" by simp
    from remove_literal_mem [OF Cons.prems(2), of k] 3 n2
    have b: "[- l] \<in> set (remove_literal cnf k)" by simp
    from Cons.prems(4) 3 have "l \<in> set ls \<or> - l \<in> set ls" by auto
    from Cons.IH [OF a b Cons.prems(3) this] show ?thesis by simp
  qed
qed

lemma forced_complementary:
  assumes "l \<in> forced cnf" and "- l \<in> forced cnf"
  shows "[l] \<in> set cnf \<and> [- l] \<in> set cnf"
proof -
  from assms have "l \<in> determine_literals cnf" "- l \<in> determine_literals cnf"
    using forced_subset [of cnf] by auto
  with assms show ?thesis by (simp add: forced_iff)
qed

lemma merged_consistent:
  assumes ord: "iteration_order ord" and zero: "0 \<notin> determine_literals cnf"
    and con: "consistent pa" and fr: "fresh pa cnf"
    and nc: "[] \<notin> set (remove_all (ord (forced cnf)) cnf)"
  shows "consistent (pa \<union> forced cnf)"
  unfolding consistent_def
proof
  fix l assume l: "l \<in> pa \<union> forced cnf"
  show "- l \<notin> pa \<union> forced cnf"
  proof
    assume m: "- l \<in> pa \<union> forced cnf"
    have sub: "forced cnf \<subseteq> determine_literals cnf" by (rule forced_subset)
    consider "l \<in> pa" "- l \<in> pa" | "l \<in> pa" "- l \<in> forced cnf" | "l \<in> forced cnf" "- l \<in> pa"
      | "l \<in> forced cnf" "- l \<in> forced cnf"
      using l m by blast
    then show False
    proof cases
      case 1
      with con show False by (auto simp add: consistent_def)
    next
      case 2
      with fr sub show False by (auto simp add: fresh_def)
    next
      case 3
      from 3(2) fr have "- (- l) \<notin> determine_literals cnf" unfolding fresh_def by blast
      with 3(1) sub show False by auto
    next
      case 4
      then have u: "[l] \<in> set cnf" "[- l] \<in> set cnf" using forced_complementary by blast+
      from 4(1) sub zero have "l \<noteq> 0" by auto
      moreover have "l \<in> set (ord (forced cnf))"
        using 4(1) iteration_orderD [OF ord finite_forced, of cnf] by simp
      ultimately have "[] \<in> set (remove_all (ord (forced cnf)) cnf)"
        using u by (intro complementary_units [of l]) simp_all
      with nc show False by simp
    qed
  qed
qed

lemma merged_fresh:
  assumes ord: "iteration_order ord" and fr: "fresh pa cnf"
  shows "fresh (pa \<union> forced cnf) (remove_all (ord (forced cnf)) cnf)"
  unfolding fresh_def
proof
  fix l assume "l \<in> pa \<union> forced cnf"
  then show "l \<notin> determine_literals (remove_all (ord (forced cnf)) cnf) \<and>
      - l \<notin> determine_literals (remove_all (ord (forced cnf)) cnf)"
    using simplified_literals [OF ord, of cnf] fr unfolding fresh_def by blast
qed

lemma branch_fresh: "fresh pa cnf \<Longrightarrow> fresh (pa \<union> {x}) (remove_literal cnf x)"
  using literals_remove_literal [of cnf x] unfolding fresh_def by blast

lemma branch_consistent: "consistent pa \<Longrightarrow> - x \<notin> pa \<Longrightarrow> x \<noteq> 0 \<Longrightarrow> consistent (pa \<union> {x})"
  unfolding consistent_def by auto

lemma backtrack_solution_consistent:
  assumes ord: "iteration_order ord" and fin: "finite lits" and zero: "0 \<notin> lits"
  shows "backtrack n ord rnd lits cnf pa s = Some (Inr (True, s')) \<Longrightarrow>
    determine_literals cnf \<subseteq> lits \<Longrightarrow> finite pa \<Longrightarrow> consistent pa \<Longrightarrow> fresh pa cnf \<Longrightarrow>
    pa \<subseteq> lits \<union> uminus ` lits \<Longrightarrow>
    consistent (set (solution s')) \<and> set (solution s') \<subseteq> lits \<union> uminus ` lits"
proof (induction n arbitrary: cnf pa s)
  case 0
  then show ?case by simp
next
  case (Suc n)
  let ?cnf = "remove_all (ord (forced cnf)) cnf"
  let ?pa = "pa \<union> forced cnf"
  let ?goal = "consistent (set (solution s')) \<and> set (solution s') \<subseteq> lits \<union> uminus ` lits"
  have sub: "determine_literals ?cnf \<subseteq> lits"
    using simplified_literals [OF ord, of cnf] Suc.prems(2) by blast
  have finpa: "finite ?pa" using Suc.prems(3) by simp
  have zero': "0 \<notin> determine_literals cnf" using zero Suc.prems(2) by blast
  have con: "[] \<notin> set ?cnf \<Longrightarrow> consistent ?pa"
    by (rule merged_consistent [OF ord zero' Suc.prems(4,5)])
  have fr: "fresh ?pa ?cnf" by (rule merged_fresh [OF ord Suc.prems(5)])
  have within: "?pa \<subseteq> lits \<union> uminus ` lits"
    using Suc.prems(6,2) forced_subset [of cnf] by blast
  have cands: "set (ord (lits - ?pa)) = lits - ?pa"
    using fin by (intro iteration_orderD [OF ord]) simp
  have child: "\<And>x s2. [] \<notin> set ?cnf \<Longrightarrow> x \<noteq> 0 \<Longrightarrow> - x \<notin> ?pa \<Longrightarrow> x \<in> lits \<union> uminus ` lits \<Longrightarrow>
      backtrack n ord rnd lits (remove_literal ?cnf x) (?pa \<union> {x}) s2 = Some (Inr (True, s')) \<Longrightarrow> ?goal"
  proof -
    fix x s2
    assume nc: "[] \<notin> set ?cnf" and x: "x \<noteq> 0" "- x \<notin> ?pa" "x \<in> lits \<union> uminus ` lits"
      and run: "backtrack n ord rnd lits (remove_literal ?cnf x) (?pa \<union> {x}) s2 = Some (Inr (True, s'))"
    have 1: "determine_literals (remove_literal ?cnf x) \<subseteq> lits"
      using literals_remove_literal [of ?cnf x] sub by blast
    have 2: "finite (?pa \<union> {x})" using finpa by simp
    have 3: "consistent (?pa \<union> {x})" using con [OF nc] x(1,2) by (intro branch_consistent)
    have 4: "fresh (?pa \<union> {x}) (remove_literal ?cnf x)" using fr by (rule branch_fresh)
    have 5: "?pa \<union> {x} \<subseteq> lits \<union> uminus ` lits" using within x(3) by blast
    from Suc.IH [OF run 1 2 3 4 5] show ?goal .
  qed
  from Suc.prems(1) show ?case
  proof (cases rule: backtrack_SucE)
    case Sat
    then have "consistent ?pa" by (intro con) simp
    moreover have "set (solution s') = ?pa"
      using Sat(2) iteration_orderD [OF ord finpa] by simp
    ultimately show ?thesis using within by simp
  next
    case Conflict
    then show ?thesis by auto
  next
    case Raise
    then show ?thesis by simp
  next
    case (NegErr literal s2 e)
    then show ?thesis by simp
  next
    case (NegTrue literal s2 s3)
    from NegTrue(3) cands zero have "- literal \<noteq> 0" "- (- literal) \<notin> ?pa" "- literal \<in> lits \<union> uminus ` lits"
      by auto
    from child [OF NegTrue(2) this] NegTrue(4,5) show ?thesis by simp
  next
    case (Pos literal s2 s3)
    from Pos(3) cands zero have lit: "literal \<noteq> 0" "literal \<in> lits" "literal \<in> lits \<union> uminus ` lits"
      by auto
    show ?thesis
    proof (cases "- literal \<in> ?pa")
      case False
      from child [OF Pos(2) lit(1) False lit(3) Pos(5)] show ?thesis .
    next
      case True
      with fr have "- literal \<notin> determine_literals ?cnf" "- (- literal) \<notin> determine_literals ?cnf"
        unfolding fresh_def by blast+
      then have absent: "literal \<notin> determine_literals ?cnf" "- literal \<notin> determine_literals ?cnf"
        by simp_all
      then have same: "remove_literal ?cnf literal = ?cnf" "remove_literal ?cnf (- literal) = ?cnf"
        by (simp_all add: remove_literal_absent)
      from Pos(5) have "\<exists>A. assignment_over lits A \<and> satisfies A ?cnf"
        unfolding same by (rule backtrack_true_satisfiable [OF ord fin zero _ sub])
      then obtain A where A: "assignment_over lits A" "satisfies A ?cnf" by blast
      from Pos(4) have "\<not> satisfies A ?cnf"
        unfolding same by (rule backtrack_complete [OF ord fin A(1) _ sub])
      with A(2) show ?thesis by simp
    qed
  qed
qed

lemma d1: "forced [[1, 2, 3], [1, -2, -3], [-1, 2]] = {}"
  by code_simp

lemma d2: "forced [[2, 3], [-2, -3]] = {}"
  by code_simp

lemma d3: "sorted_list_of_set (determine_literals [[1, 2, 3], [1, -2, -3], [-1, 2]]) = [-3, -2, -1, 1, 2, 3]"
  by code_simp

lemma d4: "sorted_list_of_set (determine_literals [[1, 2, 3], [1, -2, -3], [-1, 2]] - {-1}) = [-3, -2, 1, 2, 3]"
  by code_simp

lemma d5: "remove_literal [[1, 2, 3], [1, -2, -3], [-1, 2]] (- 1) = [[2, 3], [-2, -3]]"
  by code_simp

lemma d6: "remove_literal [[2, 3], [-2, -3]] (- 1) = [[2, 3], [-2, -3]]"
  by code_simp

lemma d7: "determine_literals [[1, 2, 3], [1, -2, -3], [-1, 2]] \<noteq> {}"
  by (simp add: determine_literals_def flatten_list_def)

lemma d8: "\<not> determine_literals [[1, 2, 3], [1, -2, -3], [-1, 2]] \<subseteq> {- 1}"
  by (simp add: determine_literals_def flatten_list_def)

lemma stale_draws_0: "stale_draws 0 = 3"
  by (simp add: stale_draws_def)

lemma stale_draws_pos: "0 < k \<Longrightarrow> stale_draws k = 2"
  by (simp add: stale_draws_def)

lemma stale_loop:
  "0 < draws s \<Longrightarrow>
   backtrack n sorted_list_of_set stale_draws (determine_literals [[1, 2, 3], [1, -2, -3], [-1, 2]])
     [[2, 3], [-2, -3]] {- 1} s = None"
proof (induction n arbitrary: s)
  case 0
  show ?case by simp
next
  case (Suc n)
  let ?s2 = "s\<lparr>recursion_count := recursion_count s + 1, draws := draws s + 1\<rparr>"
  have "0 < draws ?s2" by simp
  from Suc.IH [OF this] Suc.prems show ?case
    by (simp add: simplify_eq d2 d4 d6 d8 stale_draws_pos Let_def)
qed

lemma eval_missing: "solve 1 sorted_list_of_set first_candidate [[1, 2], [1, -2]] =
  Some (Inr \<lparr>satisfied = True, solution = [1], backtrack_count = 0, recursion_count = 1, draws = 0\<rparr>)"
  by code_simp

lemma solve_forced_example:
  assumes "iteration_order ord"
  shows "solve (Suc n) ord rnd [[1, 2], [-1]] =
    Some (Inr \<lparr>satisfied = True, solution = ord {- 1, 2}, backtrack_count = 0, recursion_count = 1,
      draws = 0\<rparr>)"
proof -
  have s: "set (ord {- 1, 2}) = {- 1, 2}" by (rule iteration_orderD [OF assms]) simp
  then have "\<forall>l \<in> set (ord {- 1, 2}). - l \<notin> set (ord {- 1, 2})" by simp
  then have "remove_all (ord {- 1, 2}) [[1, 2], [-1]] = []"
    by (simp add: remove_all_closed s)
  then show ?thesis
    by (simp add: solve_def start_def simplify_eq forced_ex1 init_def)
qed

lemma backtrack_calls_result:
  "map_option fst (backtrack_calls n ord rnd lits cnf pa s) = backtrack n ord rnd lits cnf pa s"
proof (induction n arbitrary: cnf pa s)
  case 0
  show ?case by simp
next
  case (Suc n)
  show ?case
    by (simp add: Let_def Suc.IH [symmetric] split: prod.splits option.splits sum.splits)
qed

section \<open>Formula analysis: properties\<close>

text \<open>
  C6. For every formula \<open>f\<close> and literal \<open>l\<close> (zero or not), \<open>remove_literal f l\<close> is the
  formula obtained by dropping the clauses that contain \<open>l\<close> and removing \<open>- l\<close> from the
  clauses kept: no clause of the result contains \<open>l\<close> or \<open>- l\<close>, and the result lists, in
  order, the clauses of \<open>f\<close> without \<open>l\<close>, each with its literals other than \<open>- l\<close> in order.
\<close>

theorem remove_literal_composition:
  "remove_literal f l = remove_literal_spec f l \<and>
   (\<forall>clause \<in> set (remove_literal f l). l \<notin> set clause \<and> - l \<notin> set clause) \<and>
   list_all2 (\<lambda>clause' clause. clause' = filter (\<lambda>c. c \<noteq> - l) clause)
     (remove_literal f l) (filter (\<lambda>clause. l \<notin> set clause) f)"
proof (intro conjI)
  show "remove_literal f l = remove_literal_spec f l" by (rule remove_literal_spec_eq)
  show "\<forall>clause \<in> set (remove_literal f l). l \<notin> set clause \<and> - l \<notin> set clause"
    by (auto simp add: remove_literal_eq)
  show "list_all2 (\<lambda>clause' clause. clause' = filter (\<lambda>c. c \<noteq> - l) clause)
     (remove_literal f l) (filter (\<lambda>clause. l \<notin> set clause) f)"
    by (simp add: remove_literal_eq list_all2_map1 list_all2_same)
qed

theorem remove_literal_composition_witness:
  "remove_literal [[1, 2], [-1, 3], [2, 3]] 1 = remove_literal_spec [[1, 2], [-1, 3], [2, 3]] 1 \<and>
   remove_literal [[1, 2], [-1, 3], [2, 3]] 1 = [[3], [2, 3]] \<and>
   list_all2 (\<lambda>clause' clause. clause' = filter (\<lambda>c. c \<noteq> - 1) clause)
     [[3], [2, 3]] [[-1, 3], [2, 3 :: int]]"
  using remove_literal_composition [of "[[1, 2], [-1, 3], [2, 3]]" 1]
  by (simp add: remove_literal_eq)

text \<open>
  C9. A formula with no unit clause and no pure literal is returned by \<open>simplify\<close> as it
  is, with the empty set of forced literals, whatever the iteration order of sets.
\<close>

theorem simplify_fixed_point:
  assumes "iteration_order ord"
    and "determine_unit_clauses f = {}" and "determine_pure_literals f = {}"
  shows "simplify ord f = (f, {})"
  using assms by (simp add: simplify_eq forced_def iteration_order_empty)

theorem simplify_fixed_point_witness:
  "iteration_order sorted_list_of_set \<and> determine_unit_clauses [[1, 2], [-1, -2]] = {} \<and>
   determine_pure_literals [[1, 2], [-1, -2]] = {} \<and>
   simplify sorted_list_of_set [[1, 2], [-1, -2]] = ([[1, 2], [-1, -2]], {})"
  using simplify_fixed_point [OF iteration_order_sorted units_ex pures_ex]
    iteration_order_sorted units_ex pures_ex by simp

text \<open>
  C7, as claimed, fails: with the unit clauses \<open>[1]\<close> and \<open>[-1]\<close> both present, the two
  orders \<open>1, -1, -2\<close> and \<open>-1, 1, -2\<close> of the forced set give different formulas.
\<close>

theorem simplify_order_counterexample:
  "set [1, -1, -2] =
     determine_unit_clauses [[1], [-1], [1, 2], [-2]] \<union> determine_pure_literals [[1], [-1], [1, 2], [-2]] \<and>
   set [-1, 1, -2] =
     determine_unit_clauses [[1], [-1], [1, 2], [-2]] \<union> determine_pure_literals [[1], [-1], [1, 2], [-2]] \<and>
   remove_all [1, -1, -2] [[1], [-1], [1, 2], [-2]] \<noteq> remove_all [-1, 1, -2] [[1], [-1], [1, 2], [-2]]"
proof -
  have S: "determine_unit_clauses [[1], [-1], [1, 2], [-2]] \<union> determine_pure_literals [[1], [-1], [1, 2], [-2]]
      = {1, -1, -2}"
    using forced_ex2 by (simp only: forced_def)
  have x: "set [1, -1, -2] = {1, -1, -2::int}" and y: "set [-1, 1, -2] = {1, -1, -2::int}" by auto
  have a: "remove_all [1, -1, -2] [[1], [-1], [1, 2], [-2]] = [[]]"
    by (simp add: remove_literal_eq)
  have b: "remove_all [-1, 1, -2] [[1], [-1], [1, 2], [-2]] = [[], []]"
    by (simp add: remove_literal_eq)
  show ?thesis unfolding S x y a b by simp
qed

text \<open>
  C7, amended. When the forced set of \<open>f\<close> (unit-clause literals and pure literals) holds
  no literal together with its negation, applying \<open>remove_literal\<close> for its elements in any
  two orders gives the same formula.
\<close>

theorem simplify_order_invariance:
  assumes "\<forall>l \<in> determine_unit_clauses f \<union> determine_pure_literals f.
      - l \<notin> determine_unit_clauses f \<union> determine_pure_literals f"
    and "set xs = determine_unit_clauses f \<union> determine_pure_literals f"
    and "set ys = determine_unit_clauses f \<union> determine_pure_literals f"
  shows "remove_all xs f = remove_all ys f"
proof -
  from assms have "\<forall>l \<in> set xs. - l \<notin> set xs" and "\<forall>l \<in> set ys. - l \<notin> set ys"
    by simp_all
  then have "remove_all xs f =
      map (filter (\<lambda>c. - c \<notin> set xs)) (filter (\<lambda>clause. set clause \<inter> set xs = {}) f)"
    and "remove_all ys f =
      map (filter (\<lambda>c. - c \<notin> set ys)) (filter (\<lambda>clause. set clause \<inter> set ys = {}) f)"
    by (simp_all only: remove_all_closed)
  with assms show ?thesis by simp
qed

theorem simplify_order_invariance_witness:
  "\<not> (\<exists>l \<in> determine_unit_clauses [[1, 2], [-1]] \<union> determine_pure_literals [[1, 2], [-1]].
      - l \<in> determine_unit_clauses [[1, 2], [-1]] \<union> determine_pure_literals [[1, 2], [-1]]) \<and>
   set [-1, 2] = determine_unit_clauses [[1, 2], [-1]] \<union> determine_pure_literals [[1, 2], [-1]] \<and>
   set [2, -1] = determine_unit_clauses [[1, 2], [-1]] \<union> determine_pure_literals [[1, 2], [-1]] \<and>
   remove_all [-1, 2] [[1, 2], [-1]] = remove_all [2, -1] [[1, 2], [-1]]"
proof -
  have S: "determine_unit_clauses [[1, 2], [-1]] \<union> determine_pure_literals [[1, 2], [-1]] = {-1, 2}"
    using forced_ex1 by (simp only: forced_def)
  have c: "\<forall>l \<in> {-1, 2::int}. - l \<notin> {-1, 2::int}" by simp
  have x: "set [-1, 2] = {-1, 2::int}" and y: "set [2, -1] = {-1, 2::int}" by auto
  from simplify_order_invariance [of "[[1, 2], [-1]]" "[-1, 2]" "[2, -1]"] S c x y
  show ?thesis by (simp only: simp_thms bex_simps ball_simps)
qed

section \<open>Backtracking search: properties\<close>

text \<open>
  C1. Whenever \<open>solve\<close> returns with \<open>satisfied\<close> true, every clause of the formula it was
  given contains a literal of the solution it recorded. This holds for every iteration order
  of sets, every sequence of random draws and every bound on the depth.
\<close>

theorem solve_sound:
  assumes "iteration_order ord" and "solve n ord rnd f = Some (Inr s)" and "satisfied s"
  shows "\<forall>clause \<in> set f. \<exists>l \<in> set clause. l \<in> set (solution s)"
proof -
  from assms(2) obtain s' where
    run: "backtrack n ord rnd (determine_literals f) f {} init = Some (Inr (satisfied s, s'))"
    and sol: "solution s = solution s'" by (rule solve_SomeD)
  from run assms(3) have "backtrack n ord rnd (determine_literals f) f {} init = Some (Inr (True, s'))"
    by simp
  from backtrack_sound [OF assms(1) this _ covered_start] sol show ?thesis by simp
qed

theorem solve_sound_witness:
  "solve 2 sorted_list_of_set first_candidate [[1, -1]] =
     Some (Inr \<lparr>satisfied = True, solution = [1], backtrack_count = 0, recursion_count = 2, draws = 1\<rparr>) \<and>
   (\<exists>l \<in> set [1, -1]. l \<in> set [1 :: int])"
  using solve_sound [OF iteration_order_sorted eval_branch] eval_branch by simp

text \<open>
  C2. Whenever \<open>solve\<close> returns with \<open>satisfied\<close> false, no assignment that chooses one
  polarity for each literal of the formula satisfies all its clauses.
\<close>

theorem solve_complete:
  assumes "iteration_order ord" and "solve n ord rnd f = Some (Inr s)" and "\<not> satisfied s"
  shows "\<not> (\<exists>A. assignment_over (determine_literals f) A \<and> satisfies A f)"
proof
  assume "\<exists>A. assignment_over (determine_literals f) A \<and> satisfies A f"
  then obtain A where asg: "assignment_over (determine_literals f) A" and sat: "satisfies A f"
    by blast
  from assms(2) obtain s' where
    run: "backtrack n ord rnd (determine_literals f) f {} init = Some (Inr (satisfied s, s'))"
    by (rule solve_SomeD)
  with assms(3) have "backtrack n ord rnd (determine_literals f) f {} init = Some (Inr (False, s'))"
    by simp
  from backtrack_complete [OF assms(1) finite_literals asg this] sat show False by simp
qed

theorem solve_complete_witness:
  "solve 2 sorted_list_of_set first_candidate [[1, 2], [-1, 2], [1, -2], [-1, -2]] =
     Some (Inr \<lparr>satisfied = False, solution = [], backtrack_count = 2, recursion_count = 3, draws = 1\<rparr>) \<and>
   \<not> (\<exists>A. assignment_over (determine_literals [[1, 2], [-1, 2], [1, -2], [-1, -2]]) A \<and>
     satisfies A [[1, 2], [-1, 2], [1, -2], [-1, -2]])"
  using solve_complete [OF iteration_order_sorted eval_unsat] eval_unsat by simp

text \<open>
  C10. \<open>solve\<close> never raises the \<open>ValueError\<close> of a random choice among no candidates:
  at every branch step it reaches, some literal of the formula is outside the partial
  assignment. The candidates are the signed literals of the formula outside the partial
  assignment, so a literal stays a candidate when only its negation is assigned.
\<close>

theorem choice_never_empty:
  assumes "iteration_order ord"
  shows "solve n ord rnd f \<noteq> Some (Inl ValueError) \<and>
    (\<forall>l pa. l \<in> determine_literals f \<and> l \<notin> pa \<and> - l \<in> pa
       \<longrightarrow> l \<in> set (ord (determine_literals f - pa)))"
proof
  have "backtrack n ord rnd (determine_literals f) f {} init \<noteq> Some (Inl ValueError)"
    by (rule backtrack_no_error [OF assms finite_literals]) simp_all
  then show "solve n ord rnd f \<noteq> Some (Inl ValueError)"
    by (auto simp add: solve_def start_def split: option.splits sum.splits prod.splits)
next
  show "\<forall>l pa. l \<in> determine_literals f \<and> l \<notin> pa \<and> - l \<in> pa
       \<longrightarrow> l \<in> set (ord (determine_literals f - pa))"
  proof (intro allI impI)
    fix l pa assume "l \<in> determine_literals f \<and> l \<notin> pa \<and> - l \<in> pa"
    moreover have "set (ord (determine_literals f - pa)) = determine_literals f - pa"
      by (rule iteration_orderD [OF assms]) simp
    ultimately show "l \<in> set (ord (determine_literals f - pa))" by simp
  qed
qed

theorem choice_never_empty_witness:
  "solve 2 sorted_list_of_set first_candidate [[1, -1]] \<noteq> Some (Inl ValueError) \<and>
   1 \<in> determine_literals [[1, -1], [2, -2]] \<and> 1 \<notin> {- 1 :: int} \<and> - 1 \<in> {- 1 :: int} \<and>
   1 \<in> set (sorted_list_of_set (determine_literals [[1, -1], [2, -2]] - {- 1}))"
  using choice_never_empty [OF iteration_order_sorted, of 2 first_candidate "[[1, -1]]"]
    choice_never_empty [OF iteration_order_sorted, of 2 first_candidate "[[1, -1], [2, -2]]"]
  by (simp add: eval_cands literals_iff)

text \<open>
  C8. On \<open>[[1, 2], [-1]]\<close> the unit clause \<open>[-1]\<close> and the pure literal \<open>2\<close> are forced in
  the first pass of \<open>simplify\<close>, which leaves no clause: \<open>solve\<close> returns satisfied with the
  assignment \<open>{-1, 2}\<close> after one call of \<open>backtrack\<close> and no random draw, whatever the
  iteration order and the random generator.
\<close>

theorem solve_example_forced:
  assumes "iteration_order ord"
  shows "determine_unit_clauses [[1, 2], [-1]] = {- 1} \<and> determine_pure_literals [[1, 2], [-1]] = {2} \<and>
    simplify ord [[1, 2], [-1]] = ([], {- 1, 2}) \<and>
    (\<exists>s. solve (Suc n) ord rnd [[1, 2], [-1]] = Some (Inr s) \<and> satisfied s \<and>
       set (solution s) = {- 1, 2} \<and> draws s = 0 \<and> recursion_count s = 1)"
proof (intro conjI)
  show "determine_unit_clauses [[1, 2], [-1]] = {- 1}" by code_simp
  show "determine_pure_literals [[1, 2], [-1]] = {2}" by code_simp
  have s: "set (ord {- 1, 2}) = {- 1, 2}" by (rule iteration_orderD [OF assms]) simp
  then have "\<forall>l \<in> set (ord {- 1, 2}). - l \<notin> set (ord {- 1, 2})" by simp
  then have "remove_all (ord {- 1, 2}) [[1, 2], [-1]] = []"
    by (simp add: remove_all_closed s)
  then show "simplify ord [[1, 2], [-1]] = ([], {- 1, 2})"
    by (simp add: simplify_eq forced_ex1)
  show "\<exists>s. solve (Suc n) ord rnd [[1, 2], [-1]] = Some (Inr s) \<and> satisfied s \<and>
       set (solution s) = {- 1, 2} \<and> draws s = 0 \<and> recursion_count s = 1"
    using solve_forced_example [OF assms, of n rnd] s by simp
qed

theorem solve_example_forced_witness:
  "simplify sorted_list_of_set [[1, 2], [-1]] = ([], {- 1, 2}) \<and>
   (\<exists>s. solve (Suc 0) sorted_list_of_set first_candidate [[1, 2], [-1]] = Some (Inr s) \<and> satisfied s \<and>
       set (solution s) = {- 1, 2} \<and> draws s = 0 \<and> recursion_count s = 1)"
  using solve_example_forced [OF iteration_order_sorted, of 0 first_candidate] by simp

text \<open>
  C3, as claimed, fails: on \<open>[[1, 2], [1, -2]]\<close> the pure literal \<open>1\<close> empties the formula
  and the solution is \<open>[1]\<close>; the variable \<open>2\<close> of the formula is in it in neither polarity.
\<close>

theorem solution_total_counterexample:
  "solve 1 sorted_list_of_set first_candidate [[1, 2], [1, -2]] =
     Some (Inr \<lparr>satisfied = True, solution = [1], backtrack_count = 0, recursion_count = 1, draws = 0\<rparr>) \<and>
   2 \<in> determine_literals [[1, 2], [1, -2]] \<and> 2 \<notin> set [1 :: int] \<and> - 2 \<notin> set [1 :: int]"
  using eval_missing by (simp add: literals_iff)

text \<open>
  C3, amended. For a formula without the literal \<open>0\<close>, when \<open>solve\<close> returns satisfied the
  solution holds no literal together with its negation, and each of its literals is a
  literal of the formula or the negation of one. Variables of the formula can be missing.
\<close>

theorem solution_one_polarity:
  assumes "iteration_order ord" and "0 \<notin> determine_literals f"
    and "solve n ord rnd f = Some (Inr s)" and "satisfied s"
  shows "consistent (set (solution s)) \<and>
    set (solution s) \<subseteq> determine_literals f \<union> uminus ` determine_literals f"
proof -
  from assms(3) obtain s' where
    run: "backtrack n ord rnd (determine_literals f) f {} init = Some (Inr (satisfied s, s'))"
    and sol: "solution s = solution s'" by (rule solve_SomeD)
  from run assms(4) have run': "backtrack n ord rnd (determine_literals f) f {} init = Some (Inr (True, s'))"
    by simp
  have "consistent {}" "fresh {} f" by (simp_all add: consistent_def fresh_def)
  with backtrack_solution_consistent [OF assms(1) finite_literals assms(2) run'] sol
  show ?thesis by simp
qed

theorem solution_one_polarity_witness:
  "solve 2 sorted_list_of_set first_candidate [[1, -1]] =
     Some (Inr \<lparr>satisfied = True, solution = [1], backtrack_count = 0, recursion_count = 2, draws = 1\<rparr>) \<and>
   consistent (set [1]) \<and> set [1] \<subseteq> determine_literals [[1, -1]] \<union> uminus ` determine_literals [[1, -1]]"
proof -
  have z: "0 \<notin> determine_literals [[1, -1]]" by (simp add: literals_iff)
  from solution_one_polarity [OF iteration_order_sorted z eval_branch] eval_branch
  show ?thesis by simp
qed

text \<open>
  C4. The branch literal is drawn among the literals of the formula outside the partial
  assignment, so \<open>1\<close> can be drawn after \<open>-1\<close> is assigned. On
  \<open>[[1, 2, 3], [1, 2, -3], [1, -2, 3], [1, -2, -3], [-1, 2]]\<close> with the draws \<open>1, 1, -3, -3\<close>
  the second draw does so: its first branch fails, and its second branch calls \<open>backtrack\<close>
  with the partial assignment \<open>{-1, 1}\<close>, from which two more recursive calls receive
  \<open>{-1, 1, 3}\<close> and \<open>{-1, 1, -3}\<close>. The run returns, satisfied, with the solution \<open>[1, 2]\<close>.
\<close>

theorem revisit_passes_both_polarities:
  "backtrack_calls 4 sorted_list_of_set revisit_draws
     (determine_literals [[1, 2, 3], [1, 2, -3], [1, -2, 3], [1, -2, -3], [-1, 2]])
     [[1, 2, 3], [1, 2, -3], [1, -2, 3], [1, -2, -3], [-1, 2]] {} init =
   Some (Inr (True, \<lparr>satisfied = False, solution = [1, 2], backtrack_count = 4, recursion_count = 9,
                       draws = 4\<rparr>),
         [{}, {- 1}, {- 1}, {- 1, 3}, {- 1, - 3}, {- 1, 1}, {- 1, 1, 3}, {- 1, 1, - 3}, {1}]) \<and>
   solve 4 sorted_list_of_set revisit_draws [[1, 2, 3], [1, 2, -3], [1, -2, 3], [1, -2, -3], [-1, 2]] =
   Some (Inr \<lparr>satisfied = True, solution = [1, 2], backtrack_count = 4, recursion_count = 9,
                draws = 4\<rparr>) \<and>
   1 \<in> {- 1, 1 :: int} \<and> - 1 \<in> {- 1, 1 :: int}"
  by code_simp

text \<open>
  C5. The candidates for branching are the literals of the formula outside the partial
  assignment, so the literal \<open>1\<close> stays a candidate after \<open>-1\<close> is assigned. On
  \<open>[[1, 2, 3], [1, -2, -3], [-1, 2]]\<close>, when every draw picks the literal \<open>1\<close>, the first
  recursive call is made on \<open>[[2, 3], [-2, -3]]\<close> with the assignment \<open>{-1}\<close>, and every call
  after it on the same formula and assignment: no bound on the depth lets \<open>solve\<close> return.
\<close>

theorem stale_literal_diverges:
  "solve n sorted_list_of_set stale_draws [[1, 2, 3], [1, -2, -3], [-1, 2]] = None"
proof (cases n)
  case 0
  then show ?thesis by (simp add: solve_def start_def)
next
  case (Suc m)
  let ?s2 = "init\<lparr>recursion_count := recursion_count init + 1, draws := draws init + 1\<rparr>"
  have "0 < draws ?s2" by simp
  from stale_loop [OF this, of m] Suc show ?thesis
    by (simp add: solve_def start_def simplify_eq d1 d3 d5 d7 stale_draws_0 Let_def init_def)
qed

theorem stale_literal_diverges_witness:
  "solve 4 sorted_list_of_set stale_draws [[1, 2, 3], [1, -2, -3], [-1, 2]] = None"
  using stale_literal_diverges [of 4] by simp

end
